theory Spec2Isabelle
  imports Complex_Main
begin

section \<open>Data model (the interfaces of Dashboard.tsx)\<close>

text \<open>
  An optional field of a TypeScript interface is an \<open>option\<close>: \<open>None\<close> is JavaScript's
  \<open>undefined\<close>. \<open>healthy?: boolean\<close> is therefore the tri-state \<open>bool option\<close>.
  The record fields carry the interface name as a prefix, since \<open>CFOrigin\<close> and
  \<open>CFPool\<close> share the field names \<open>name\<close> and \<open>healthy\<close>.
\<close>

type_synonym tri = "bool option"

record CFOrigin =
  origin_name :: "string option"
  origin_address :: "string option"
  origin_enabled :: "bool option"
  origin_healthy :: tri

text \<open>
  \<open>origins\<close> is declared \<open>CFOrigin[]\<close>, but the code tests \<open>Array.isArray(p.origins)\<close>
  at run time: \<open>None\<close> stands for a value that is not an array.
\<close>

record CFPool =
  pool_id :: string
  pool_name :: string
  pool_description :: "string option"
  pool_origins :: "CFOrigin list option"
  pool_healthy :: tri

text \<open>The elements of \<open>changes: Array<"online" | "offline">\<close>.\<close>

datatype change = Online | Offline

text \<open>
  \<open>Map<string, boolean | undefined>\<close>: a key is absent (\<open>None\<close>), or present with a
  tri-state value (\<open>Some None\<close> is a key recorded with \<open>undefined\<close>).
\<close>

type_synonym snapshot = "string \<Rightarrow> tri option"

text \<open>\<open>Map.prototype.get\<close>: \<open>undefined\<close> for an absent key.\<close>

definition map_get :: "snapshot \<Rightarrow> string \<Rightarrow> tri" where
  "map_get m k = (case m k of None \<Rightarrow> None | Some v \<Rightarrow> v)"

section \<open>The synthesized origin key\<close>

text \<open>\<open>String(idx)\<close> for an array index: its decimal digits.\<close>

definition digit_char :: "nat \<Rightarrow> char" where
  "digit_char d = ''0123456789'' ! d"

fun String_of_nat :: "nat \<Rightarrow> string" where
  "String_of_nat n =
     (if n < 10 then [digit_char n]
      else String_of_nat (n div 10) @ [digit_char (n mod 10)])"

declare String_of_nat.simps [simp del]

text \<open>
  \<open>o.name || o.address || String(idx)\<close>: a string is falsy when it is \<open>undefined\<close> or
  empty.
\<close>

definition truthy :: "string option \<Rightarrow> bool" where
  "truthy v = (case v of None \<Rightarrow> False | Some str \<Rightarrow> str \<noteq> [])"

definition origin_label :: "CFOrigin \<Rightarrow> nat \<Rightarrow> string" where
  "origin_label og idx =
     (if truthy (origin_name og) then the (origin_name og)
      else if truthy (origin_address og) then the (origin_address og)
      else String_of_nat idx)"

text \<open>\<open>const key = `${p.id}/${o.name || o.address || String(idx)}`\<close>\<close>

definition origin_key :: "CFPool \<Rightarrow> CFOrigin \<Rightarrow> nat \<Rightarrow> string" where
  "origin_key p og idx = pool_id p @ ''/'' @ origin_label og idx"

section \<open>The diff pass of \<open>load\<close>\<close>

text \<open>
  The body of the inner \<open>forEach\<close> callback pushes at most one element on \<open>changes\<close>:
  \<^verbatim>\<open>
  if (!firstLoadRef.current && prev !== cur && typeof cur === "boolean") {
    changes.push(cur ? "online" : "offline");
  }
  \<close>
  \<open>transition\<close> is the list of elements pushed (empty or a singleton).
\<close>

definition transition :: "bool \<Rightarrow> tri \<Rightarrow> tri \<Rightarrow> change list" where
  "transition firstLoad prev cur =
     (if \<not> firstLoad \<and> prev \<noteq> cur \<and> cur \<noteq> None
      then [if the cur then Online else Offline]
      else [])"

text \<open>\<open>const origins = Array.isArray(p.origins) ? p.origins : []\<close>\<close>

definition origins_of :: "CFPool \<Rightarrow> CFOrigin list" where
  "origins_of p = (case pool_origins p of Some ogs \<Rightarrow> ogs | None \<Rightarrow> [])"

text \<open>
  \<open>origins.forEach((o, idx) => ...)\<close> from index \<open>idx\<close> on, threading the two
  accumulators \<open>changes\<close> and \<open>nextMap\<close>. \<open>prevMap\<close> is \<open>prevStatusRef.current\<close>
  and \<open>firstLoad\<close> is \<open>firstLoadRef.current\<close>; neither is written during the pass.
\<close>

fun origins_forEach ::
  "snapshot \<Rightarrow> bool \<Rightarrow> CFPool \<Rightarrow> CFOrigin list \<Rightarrow> nat \<Rightarrow>
   change list \<times> snapshot \<Rightarrow> change list \<times> snapshot" where
  "origins_forEach prevMap firstLoad p [] idx acc = acc"
| "origins_forEach prevMap firstLoad p (og # ogs) idx (changes, nextMap) =
     (let key = origin_key p og idx;
          cur = origin_healthy og;
          prev = map_get prevMap key
      in origins_forEach prevMap firstLoad p ogs (Suc idx)
           (changes @ transition firstLoad prev cur, nextMap(key \<mapsto> cur)))"

text \<open>\<open>items.forEach((p) => ...)\<close>\<close>

fun items_forEach ::
  "snapshot \<Rightarrow> bool \<Rightarrow> CFPool list \<Rightarrow> change list \<times> snapshot \<Rightarrow> change list \<times> snapshot" where
  "items_forEach prevMap firstLoad [] acc = acc"
| "items_forEach prevMap firstLoad (p # ps) acc =
     items_forEach prevMap firstLoad ps
       (origins_forEach prevMap firstLoad p (origins_of p) 0 acc)"

text \<open>
  The whole pass, from \<open>const changes = []\<close> and \<open>const nextMap = new Map()\<close>: the
  events collected and the map built.
\<close>

definition diff :: "snapshot \<Rightarrow> bool \<Rightarrow> CFPool list \<Rightarrow> change list \<times> snapshot" where
  "diff prevMap firstLoad items = items_forEach prevMap firstLoad items ([], Map.empty)"

section \<open>The pool fetcher: \<open>fetchAllPools\<close> of Dashboard.tsx\<close>

text \<open>
  A value that JavaScript can throw or reject with, as far as \<open>load\<close> inspects it:
  an \<open>Error\<close> instance (a \<open>DOMException\<close> is one) with its \<open>name\<close> and \<open>message\<close>;
  another object, with its \<open>name\<close> property when it has one and the text \<open>String(e)\<close>;
  or a primitive, with the text \<open>String(e)\<close>.
\<close>

datatype thrown =
    JsError string string
  | JsObject "string option" string
  | JsPrimitive string

text \<open>
  \<open>CFListResponse<CFPool>\<close>. \<open>total_pages?: number\<close> is an integer here (a page count);
  \<open>errors?: unknown\<close> is kept as the text \<open>JSON.stringify\<close> gives for it when it is
  truthy, \<open>None\<close> when it is absent or falsy.
\<close>

record CFResultInfo =
  total_pages :: "int option"

record CFListResponse =
  success :: bool
  result :: "CFPool list"
  result_info :: "CFResultInfo option"
  errors :: "string option"

text \<open>
  What the code reads of a \<open>Response\<close>: \<open>status\<close>, \<open>statusText\<close>, the outcome of
  \<open>res.text()\<close> and the outcome of \<open>res.json()\<close> (each promise may reject, \<open>Inl\<close>).
  A body that parses is taken to have the declared type \<open>CFListResponse<CFPool>\<close>.
  \<open>res.ok\<close> is, by the Fetch standard, a status in the range 200 to 299.
\<close>

record Response =
  status :: nat
  statusText :: string
  text_body :: "thrown + string"
  json_body :: "thrown + CFListResponse"

definition ok :: "Response \<Rightarrow> bool" where
  "ok res = (200 \<le> status res \<and> status res \<le> 299)"

text \<open>
  A call of \<open>fetch(url, {headers: {Authorization}, signal})\<close> and its outcome: the promise
  rejects (network failure, or an \<open>AbortError\<close> once the signal has fired) or fulfils
  with a response. The signal is named by the number of the \<open>AbortController\<close> that
  owns it.
\<close>

record Request =
  url :: string
  Authorization :: string
  req_signal :: "nat option"

datatype fetch_outcome = Rejected thrown | Fulfilled Response

text \<open>
  The remote side. Within one call of \<open>fetchAllPools\<close> every request has a different
  URL (the page number grows), so a function of the request describes any server.
\<close>

type_synonym server = "Request \<Rightarrow> fetch_outcome"

record FetchAllPoolsArgs =
  token :: string
  accountId :: string
  signal :: "nat option"

text \<open>\<open>CF_BASE\<close>; the argument is \<open>import.meta.env.DEV\<close>.\<close>

definition CF_BASE :: "bool \<Rightarrow> string" where
  "CF_BASE dev = (if dev then ''/cf'' else ''https://api.cloudflare.com/client/v4'')"

definition perPage :: nat where
  "perPage = 50"

text \<open>The request built at the head of the loop body for page \<open>page\<close>.\<close>

definition page_request :: "bool \<Rightarrow> FetchAllPoolsArgs \<Rightarrow> nat \<Rightarrow> Request" where
  "page_request dev args page =
     \<lparr> url = CF_BASE dev @ ''/accounts/'' @ accountId args
               @ ''/load_balancers/pools?per_page='' @ String_of_nat perPage
               @ ''&page='' @ String_of_nat page,
       Authorization = ''Bearer '' @ token args,
       req_signal = signal args \<rparr>"

text \<open>\<open>JSON.stringify(data.errors || {})\<close>\<close>

definition errors_json :: "CFListResponse \<Rightarrow> string" where
  "errors_json data = (case errors data of Some j \<Rightarrow> j | None \<Rightarrow> ''{}'')"

text \<open>\<open>data.result_info?.total_pages || 1\<close>: absent and \<open>0\<close> are both falsy.\<close>

definition totalPages_of :: "CFListResponse \<Rightarrow> int" where
  "totalPages_of data =
     (case result_info data of
        None \<Rightarrow> 1
      | Some info \<Rightarrow>
          (case total_pages info of
             None \<Rightarrow> 1
           | Some n \<Rightarrow> if n = 0 then 1 else n))"

text \<open>
  The \<open>while (true)\<close> loop, entered with the current \<open>page\<close> and accumulator \<open>all\<close>.
  \<open>reqs\<close> is the list of requests issued so far, kept to state how many requests a
  call makes. The result is what the promise settles with (\<open>Inl\<close> a thrown value,
  \<open>Inr\<close> the pools) and the requests issued; a server that always announces a further
  page keeps the loop running, which is the value \<open>None\<close>.
\<close>

partial_function (option) fetch_loop ::
  "bool \<Rightarrow> server \<Rightarrow> FetchAllPoolsArgs \<Rightarrow> nat \<Rightarrow> CFPool list \<Rightarrow> Request list \<Rightarrow>
   ((thrown + CFPool list) \<times> Request list) option" where
  "fetch_loop dev srv args page all reqs =
     (let req = page_request dev args page; reqs' = reqs @ [req] in
      case srv req of
        Rejected e \<Rightarrow> Some (Inl e, reqs')
      | Fulfilled res \<Rightarrow>
          if \<not> ok res then
            (case text_body res of
               Inl e \<Rightarrow> Some (Inl e, reqs')
             | Inr body \<Rightarrow>
                 Some (Inl (JsError ''Error''
                        (''HTTP '' @ String_of_nat (status res) @ '': '' @ body)), reqs'))
          else
            (case json_body res of
               Inl e \<Rightarrow> Some (Inl e, reqs')
             | Inr data \<Rightarrow>
                 if \<not> success data then
                   Some (Inl (JsError ''Error'' (''API error: '' @ errors_json data)), reqs')
                 else
                   (let all' = all @ result data in
                    if int page \<ge> totalPages_of data then Some (Inr all', reqs')
                    else fetch_loop dev srv args (page + 1) all' reqs')))"

declare fetch_loop.simps [code]

text \<open>\<open>fetchAllPools\<close>: \<open>let page = 1; const all = []\<close>, then the loop.\<close>

definition fetchAllPools ::
  "bool \<Rightarrow> server \<Rightarrow> FetchAllPoolsArgs \<Rightarrow> ((thrown + CFPool list) \<times> Request list) option" where
  "fetchAllPools dev srv args = fetch_loop dev srv args 1 [] []"

section \<open>The pool fetcher of the single-file variant of the application\<close>

text \<open>
  The repository holds a second copy of \<open>fetchAllPools\<close>, in the file that defines
  \<open>CredentialsForm\<close>, \<open>Dashboard\<close> and \<open>App\<close> together. \<open>App.tsx\<close> imports
  \<open>./pages/Dashboard\<close>, so the copy above is the one the application runs. The
  second copy differs in the request (no query string, so every request of a call
  is the same), in the error texts, and in the page count it assumes when the
  response does not give one.
\<close>

definition pools_request :: "bool \<Rightarrow> FetchAllPoolsArgs \<Rightarrow> Request" where
  "pools_request dev args =
     \<lparr> url = CF_BASE dev @ ''/accounts/'' @ accountId args @ ''/load_balancers/pools'',
       Authorization = ''Bearer '' @ token args,
       req_signal = signal args \<rparr>"

text \<open>
  \<open>info.total_pages ?? (items.length < perPage ? page : page + 1)\<close>, with
  \<open>info = data.result_info ?? {}\<close> and \<open>items = data.result ?? []\<close>.
\<close>

definition totalPages_single :: "CFListResponse \<Rightarrow> nat \<Rightarrow> int" where
  "totalPages_single data page =
     (case (case result_info data of None \<Rightarrow> None | Some info \<Rightarrow> total_pages info) of
        Some n \<Rightarrow> n
      | None \<Rightarrow> if length (result data) < perPage then int page else int page + 1)"

text \<open>
  The loop of the second copy. Its requests do not differ, so the remote side is a
  function of the request's position in the call: \<open>srv page\<close> answers the request
  made while the counter is \<open>page\<close>. \<open>stringify\<close> is \<open>JSON.stringify\<close> on a parsed
  body.
\<close>

partial_function (option) fetch_loop_single ::
  "bool \<Rightarrow> (CFListResponse \<Rightarrow> string) \<Rightarrow> (nat \<Rightarrow> server) \<Rightarrow> FetchAllPoolsArgs \<Rightarrow>
   nat \<Rightarrow> CFPool list \<Rightarrow> Request list \<Rightarrow> ((thrown + CFPool list) \<times> Request list) option" where
  "fetch_loop_single dev stringify srv args page all reqs =
     (let req = pools_request dev args; reqs' = reqs @ [req] in
      case srv page req of
        Rejected e \<Rightarrow> Some (Inl e, reqs')
      | Fulfilled res \<Rightarrow>
          if \<not> ok res then
            (let txt = (case text_body res of Inl e \<Rightarrow> [] | Inr body \<Rightarrow> body) in
             Some (Inl (JsError ''Error''
                    (''Cloudflare API error ('' @ String_of_nat (status res) @ ''): ''
                       @ (if txt \<noteq> [] then txt else statusText res))), reqs'))
          else
            (case json_body res of
               Inl e \<Rightarrow> Some (Inl e, reqs')
             | Inr data \<Rightarrow>
                 if \<not> success data then
                   Some (Inl (JsError ''Error''
                          (''Cloudflare API returned success=false: ''
                             @ (case errors data of Some j \<Rightarrow> j | None \<Rightarrow> stringify data))),
                         reqs')
                 else
                   (let all' = all @ result data in
                    if int page \<ge> totalPages_single data page then Some (Inr all', reqs')
                    else fetch_loop_single dev stringify srv args (page + 1) all' reqs')))"

declare fetch_loop_single.simps [code]

definition fetchAllPools_single ::
  "bool \<Rightarrow> (CFListResponse \<Rightarrow> string) \<Rightarrow> (nat \<Rightarrow> server) \<Rightarrow> FetchAllPoolsArgs \<Rightarrow>
   ((thrown + CFPool list) \<times> Request list) option" where
  "fetchAllPools_single dev stringify srv args = fetch_loop_single dev stringify srv args 1 [] []"

section \<open>Audio cues (helpers/audio.ts)\<close>

datatype AudioContextState = Suspended | Running | Closed

datatype OscillatorType = Sine | Square | Sawtooth | Triangle

text \<open>
  An oscillator connected to the destination: its wave form, frequency and gain, and
  the two times given to \<open>osc.start\<close> and \<open>osc.stop\<close>, in seconds of the context's
  clock. It sounds from \<open>startTime\<close> until \<open>stopTime\<close>. Times are rationals; the
  rounding of JavaScript's numbers plays no part in what follows.
\<close>

record Oscillator =
  osc_type :: OscillatorType
  frequency :: nat
  gain :: rat
  startTime :: rat
  stopTime :: rat

record AudioContext =
  ctx_state :: AudioContextState
  scheduled :: "Oscillator list"

text \<open>
  What the browser decides: what \<open>new (window.AudioContext || webkitAudioContext)()\<close>
  does (it throws where neither constructor exists, \<open>Inl\<close>; otherwise the new context
  starts in the state given), whether \<open>resume()\<close> fulfils or rejects, and the clock.
  \<open>currentTime k\<close> is the value of \<open>ctx.currentTime\<close> read when \<open>k\<close> oscillators have
  been created on the context; the code never waits for time to pass, so how far
  the clock moves between two reads is the browser's business only.
\<close>

record audio_env =
  construct :: "thrown + AudioContextState"
  resume_fulfils :: bool
  currentTime :: "nat \<Rightarrow> rat"

text \<open>
  \<open>getAudioCtx\<close> on the module variable \<open>_audioCtx\<close> (\<open>None\<close> is \<open>null\<close>): the context
  there is, or a new one, or what the constructor throws. The caller stores a new
  context in the variable.
\<close>

definition getAudioCtx :: "audio_env \<Rightarrow> AudioContext option \<Rightarrow> thrown + AudioContext" where
  "getAudioCtx env audio =
     (case audio of
        Some ctx \<Rightarrow> Inr ctx
      | None \<Rightarrow>
          (case construct env of
             Inl e \<Rightarrow> Inl e
           | Inr st \<Rightarrow> Inr \<lparr> ctx_state = st, scheduled = [] \<rparr>))"

text \<open>
  \<open>try { await ctx.resume() } catch { }\<close> on a context at hand: a rejection is
  swallowed, after which the context is as it was.
\<close>

definition try_resume :: "audio_env \<Rightarrow> AudioContext \<Rightarrow> AudioContext" where
  "try_resume env ctx = (if resume_fulfils env then ctx\<lparr>ctx_state := Running\<rparr> else ctx)"

text \<open>
  \<open>try { await getAudioCtx().resume() } catch (e) { console.error(...) }\<close>, as in \<open>load\<close>
  and in the handler of the sound button: here a throwing constructor is swallowed
  too, and the module variable stays \<open>null\<close>.
\<close>

definition resume_swallowed :: "audio_env \<Rightarrow> AudioContext option \<Rightarrow> AudioContext option" where
  "resume_swallowed env audio =
     (case getAudioCtx env audio of
        Inl e \<Rightarrow> audio
      | Inr ctx \<Rightarrow> Some (try_resume env ctx))"

text \<open>
  \<open>playBeep\<close>: its call of \<open>getAudioCtx\<close> is not guarded, so what the constructor
  throws leaves the function (\<open>Inl\<close>); otherwise the module variable afterwards.
\<close>

definition playBeep ::
  "audio_env \<Rightarrow> nat \<Rightarrow> nat \<Rightarrow> OscillatorType \<Rightarrow> AudioContext option \<Rightarrow>
   thrown + AudioContext option" where
  "playBeep env freq durationMs type audio =
     (case getAudioCtx env audio of
        Inl e \<Rightarrow> Inl e
      | Inr ctx0 \<Rightarrow>
          (let ctx = (if ctx_state ctx0 = Suspended then try_resume env ctx0 else ctx0);
               now = currentTime env (length (scheduled ctx));
               osc = \<lparr> osc_type = type, frequency = freq, gain = 8 / 100,
                       startTime = now, stopTime = now + of_nat durationMs / 1000 \<rparr>
           in Inr (Some (ctx\<lparr>scheduled := scheduled ctx @ [osc]\<rparr>))))"

definition playOnlineSound ::
  "audio_env \<Rightarrow> AudioContext option \<Rightarrow> thrown + AudioContext option" where
  "playOnlineSound env audio =
     (case playBeep env 880 120 Triangle audio of
        Inl e \<Rightarrow> Inl e
      | Inr audio1 \<Rightarrow> playBeep env 1320 100 Triangle audio1)"

definition playOfflineSound ::
  "audio_env \<Rightarrow> AudioContext option \<Rightarrow> thrown + AudioContext option" where
  "playOfflineSound env audio = playBeep env 300 220 Sawtooth audio"

text \<open>
  \<open>for (let i = 0; i < n; i++) await cue();\<close>: the calls one after the other, the loop
  left by the first one that throws.
\<close>

primrec for_await ::
  "nat \<Rightarrow> (AudioContext option \<Rightarrow> thrown + AudioContext option) \<Rightarrow> AudioContext option \<Rightarrow>
   thrown + AudioContext option" where
  "for_await 0 cue audio = Inr audio"
| "for_await (Suc n) cue audio =
     (case cue audio of
        Inl e \<Rightarrow> Inl e
      | Inr audio1 \<Rightarrow> for_await n cue audio1)"

section \<open>The poll loop: the effect of \<open>Dashboard\<close>\<close>

text \<open>
  Each run of the effect creates its own \<open>alive\<close>, \<open>intervalId\<close> and \<open>ctrl\<close>; the
  state keeps them in a store indexed by the number of the run. \<open>interval_set\<close> says
  that the run's interval timer is armed, \<open>aborted\<close> is \<open>ctrl.signal.aborted\<close>.
\<close>

record effect_vars =
  alive :: bool
  interval_set :: bool
  aborted :: bool

text \<open>
  The component's state: the four \<open>useState\<close> cells, the two refs, the variables of
  the effect runs, and the module variable \<open>_audioCtx\<close> of the audio helpers.
\<close>

record Dashboard =
  pools :: "CFPool list"
  loading :: bool
  err :: string
  soundEnabled :: bool
  prevStatusRef :: snapshot
  firstLoadRef :: bool
  effects :: "nat \<Rightarrow> effect_vars"
  audioCtx :: "AudioContext option"

text \<open>
  What the closure \<open>load\<close> of one effect run captures: the props and the value of
  \<open>soundEnabled\<close> of the render that ran the effect, and the run's number.
\<close>

record effect_run =
  run_token :: string
  run_accountId :: string
  run_soundEnabled :: bool
  run_id :: nat

definition isAbortError :: "thrown \<Rightarrow> bool" where
  "isAbortError e =
     (case e of
        JsError nm msg \<Rightarrow> nm = ''AbortError''
      | JsObject nm str \<Rightarrow> nm = Some ''AbortError''
      | JsPrimitive str \<Rightarrow> False)"

text \<open>\<open>e instanceof Error ? e.message : String(e)\<close>\<close>

definition error_text :: "thrown \<Rightarrow> string" where
  "error_text e =
     (case e of
        JsError nm msg \<Rightarrow> msg
      | JsObject nm str \<Rightarrow> str
      | JsPrimitive str \<Rightarrow> str)"

text \<open>
  The synchronous block of \<open>load\<close> from \<open>const changes = []\<close> to the swap of the
  snapshots: the diff pass, then \<open>prevStatusRef.current = nextMap\<close> and the first-load
  flag lowered.
\<close>

definition load_diff :: "CFPool list \<Rightarrow> Dashboard \<Rightarrow> change list \<times> Dashboard" where
  "load_diff items s =
     (let (changes, nextMap) = diff (prevStatusRef s) (firstLoadRef s) items
      in (changes, s\<lparr>prevStatusRef := nextMap, firstLoadRef := False\<rparr>))"

text \<open>
  The block \<open>if (soundEnabled && changes.length) { ... }\<close>, on the module variable
  of the audio helpers: the guarded resume, then the two \<open>for\<close> loops, each call
  awaited before the next. The loops are not guarded: what a cue throws leaves
  the block (\<open>Inl\<close>).
\<close>

definition play_sounds ::
  "audio_env \<Rightarrow> bool \<Rightarrow> change list \<Rightarrow> AudioContext option \<Rightarrow> thrown + AudioContext option" where
  "play_sounds env sound changes audio =
     (if sound \<and> changes \<noteq> [] then
        (let audio1 = resume_swallowed env audio;
             offs = length (filter (\<lambda>c. c = Offline) changes);
             ons = length (filter (\<lambda>c. c = Online) changes)
         in case for_await offs (playOfflineSound env) audio1 of
              Inl e \<Rightarrow> Inl e
            | Inr audio2 \<Rightarrow> for_await ons (playOnlineSound env) audio2)
      else Inr audio)"

text \<open>\<open>finally { if (alive) setLoading(false); }\<close>\<close>

definition load_finally :: "effect_run \<Rightarrow> Dashboard \<Rightarrow> Dashboard" where
  "load_finally run s = (if alive (effects s (run_id run)) then s\<lparr>loading := False\<rparr> else s)"

text \<open>
  The \<open>catch\<close> block with the \<open>finally\<close> block after it:
  \<open>if (!alive || isAbortError(e)) return; setErr(...)\<close>.
\<close>

definition load_catch :: "effect_run \<Rightarrow> thrown \<Rightarrow> Dashboard \<Rightarrow> Dashboard" where
  "load_catch run e s =
     (if \<not> alive (effects s (run_id run)) \<or> isAbortError e then load_finally run s
      else load_finally run (s\<lparr>err := error_text e\<rparr>))"

text \<open>
  \<open>load\<close> from the moment \<open>await fetchAllPools(...)\<close> settles, with \<open>Inr items\<close> or
  with a thrown value \<open>Inl e\<close>, to its end. What the sound block throws is caught
  by the same \<open>catch\<close> as what the fetch throws; by then the snapshots are swapped
  and the flag is lowered, and \<open>setPools\<close> is not reached. A sound block only throws
  before it has changed the module variable of the audio helpers. After the fetch
  the only suspension points are the awaits of the sound block; the continuation is
  taken to run to its end with no teardown in between, so \<open>alive\<close> is the same at
  each of its reads.
\<close>

definition load_settled ::
  "audio_env \<Rightarrow> effect_run \<Rightarrow> thrown + CFPool list \<Rightarrow> Dashboard \<Rightarrow> Dashboard" where
  "load_settled env run outcome s =
     (case outcome of
        Inr items \<Rightarrow>
          if \<not> alive (effects s (run_id run)) then load_finally run s
          else
            (let (changes, s1) = load_diff items s
             in case play_sounds env (run_soundEnabled run) changes (audioCtx s1) of
                  Inl e \<Rightarrow> load_catch run e s1
                | Inr audio \<Rightarrow> load_finally run (s1\<lparr>audioCtx := audio, pools := items\<rparr>))
      | Inl e \<Rightarrow> load_catch run e s)"

text \<open>The arguments \<open>load\<close> passes to \<open>fetchAllPools\<close>.\<close>

definition fetch_args :: "effect_run \<Rightarrow> FetchAllPoolsArgs" where
  "fetch_args run =
     \<lparr> token = run_token run, accountId = run_accountId run, signal = Some (run_id run) \<rparr>"

text \<open>One whole cycle against a server, nothing else happening in between.\<close>

definition load ::
  "bool \<Rightarrow> server \<Rightarrow> audio_env \<Rightarrow> effect_run \<Rightarrow> Dashboard \<Rightarrow> Dashboard option" where
  "load dev srv env run s =
     (case fetchAllPools dev srv (fetch_args run) of
        None \<Rightarrow> None
      | Some (outcome, reqs) \<Rightarrow> Some (load_settled env run outcome s))"

text \<open>
  Successive cycles of one effect run, each settled before the next one does, each
  with its own outcome of the fetch and its own behaviour of the browser's audio.
\<close>

definition cycles ::
  "effect_run \<Rightarrow> (audio_env \<times> (thrown + CFPool list)) list \<Rightarrow> Dashboard \<Rightarrow> Dashboard" where
  "cycles run outcomes s = foldl (\<lambda>st (env, outcome). load_settled env run outcome st) s outcomes"

text \<open>
  Cycles of one effect run whose fetches succeed, run one after the other from \<open>s\<close>:
  the sound block of each of them completes, that is, leaves without throwing.
\<close>

fun sounds_complete :: "effect_run \<Rightarrow> (audio_env \<times> CFPool list) list \<Rightarrow> Dashboard \<Rightarrow> bool" where
  "sounds_complete run [] s = True"
| "sounds_complete run ((env, items) # rest) s =
     (case play_sounds env (run_soundEnabled run) (fst (load_diff items s)) (audioCtx s) of
        Inl e \<Rightarrow> False
      | Inr audio \<Rightarrow> sounds_complete run rest (load_settled env run (Inr items) s))"

text \<open>
  The effect body up to the first suspension: the resets, the variables of the new
  run, the first \<open>load()\<close> (which only issues its first request before it suspends) and
  the interval timer.
\<close>

definition activate :: "effect_run \<Rightarrow> Dashboard \<Rightarrow> Dashboard" where
  "activate run s =
     s\<lparr> loading := True,
        err := [],
        firstLoadRef := True,
        prevStatusRef := Map.empty,
        effects := (effects s)(run_id run :=
                     \<lparr> alive = True, interval_set = True, aborted = False \<rparr>) \<rparr>"

text \<open>The cleanup function the effect returns.\<close>

definition cleanup :: "effect_run \<Rightarrow> Dashboard \<Rightarrow> Dashboard" where
  "cleanup run s =
     s\<lparr> effects := (effects s)(run_id run :=
                     \<lparr> alive = False, interval_set = False, aborted = True \<rparr>) \<rparr>"

text \<open>
  The handler of the sound button: \<open>setSoundEnabled((v) => !v)\<close>, then the resume that
  warms the context up, a rejection swallowed. As \<open>soundEnabled\<close> is a dependency of
  the effect, React then cleans the current run up and starts a new one.
\<close>

definition toggle_sound :: "audio_env \<Rightarrow> Dashboard \<Rightarrow> Dashboard" where
  "toggle_sound env s =
     s\<lparr> soundEnabled := \<not> soundEnabled s,
        audioCtx := resume_swallowed env (audioCtx s) \<rparr>"



section \<open>The diff pass as a list of entries\<close>

text \<open>
  The pairs \<open>(key, cur)\<close> that the inner callback computes for the origins \<open>ogs\<close> of
  pool \<open>p\<close>, the first of them at index \<open>idx\<close>, in the order of the calls.
\<close>

definition entries_from :: "CFPool \<Rightarrow> nat \<Rightarrow> CFOrigin list \<Rightarrow> (string \<times> tri) list" where
  "entries_from p idx ogs =
     map (\<lambda>(m, og). (origin_key p og m, origin_healthy og)) (enumerate idx ogs)"

text \<open>The same for a whole fetch: every origin of every pool, in fetch order.\<close>

definition entries :: "CFPool list \<Rightarrow> (string \<times> tri) list" where
  "entries items = concat (map (\<lambda>p. entries_from p 0 (origins_of p)) items)"

text \<open>What a run of callbacks pushes on \<open>changes\<close>, and what it does to \<open>nextMap\<close>.\<close>

definition events_of :: "snapshot \<Rightarrow> bool \<Rightarrow> (string \<times> tri) list \<Rightarrow> change list" where
  "events_of prevMap firstLoad es =
     concat (map (\<lambda>(k, cur). transition firstLoad (map_get prevMap k) cur) es)"

definition record_all :: "(string \<times> tri) list \<Rightarrow> snapshot \<Rightarrow> snapshot" where
  "record_all es nextMap = fold (\<lambda>(k, cur) m. m(k \<mapsto> cur)) es nextMap"

text \<open>The oscillators created so far: none while the module variable is \<open>null\<close>.\<close>

definition sched :: "AudioContext option \<Rightarrow> Oscillator list" where
  "sched audio = (case audio of None \<Rightarrow> [] | Some ctx \<Rightarrow> scheduled ctx)"

text \<open>There is a context, or the browser can make one: no cue throws.\<close>

definition has_audio :: "audio_env \<Rightarrow> AudioContext option \<Rightarrow> bool" where
  "has_audio env audio =
     (case audio of
        Some ctx \<Rightarrow> True
      | None \<Rightarrow> (case construct env of Inl e \<Rightarrow> False | Inr st \<Rightarrow> True))"

text \<open>The oscillator that \<open>playBeep\<close> sets up when it reads \<open>now\<close> from the clock.\<close>

definition beep :: "OscillatorType \<Rightarrow> nat \<Rightarrow> nat \<Rightarrow> rat \<Rightarrow> Oscillator" where
  "beep type freq durationMs now =
     \<lparr> osc_type = type, frequency = freq, gain = 8 / 100,
       startTime = now, stopTime = now + of_nat durationMs / 1000 \<rparr>"

section \<open>Example inputs\<close>

definition ex_origin :: "string \<Rightarrow> tri \<Rightarrow> CFOrigin" where
  "ex_origin nm h =
     \<lparr> origin_name = Some nm, origin_address = None, origin_enabled = None, origin_healthy = h \<rparr>"

definition ex_pool :: "string \<Rightarrow> CFOrigin list \<Rightarrow> CFPool" where
  "ex_pool i ogs =
     \<lparr> pool_id = i, pool_name = ''pool'', pool_description = None,
       pool_origins = Some ogs, pool_healthy = None \<rparr>"

definition ex_args :: FetchAllPoolsArgs where
  "ex_args = \<lparr> token = ''secret'', accountId = ''0123456789'', signal = Some 0 \<rparr>"

text \<open>A server that knows the requests for the pages 1, 2 and 3 and answers them from \<open>pages\<close>.\<close>

definition ex_server :: "(nat \<Rightarrow> Response) \<Rightarrow> server" where
  "ex_server pages req =
     (if req = page_request False ex_args 1 then Fulfilled (pages 1)
      else if req = page_request False ex_args 2 then Fulfilled (pages 2)
      else if req = page_request False ex_args 3 then Fulfilled (pages 3)
      else Rejected (JsError ''TypeError'' ''Failed to fetch''))"

text \<open>A successful page that leaves \<open>result_info\<close> out.\<close>

definition ex_response_no_count :: "CFPool list \<Rightarrow> Response" where
  "ex_response_no_count items =
     \<lparr> status = 200, statusText = ''OK'', text_body = Inr [],
       json_body = Inr \<lparr> success = True, result = items, result_info = None, errors = None \<rparr> \<rparr>"

text \<open>Sixty pools served without a page count: fifty on the first page, ten on the next.\<close>

definition ex_pages_no_count :: "nat \<Rightarrow> Response" where
  "ex_pages_no_count p =
     (if p = 1 then ex_response_no_count (replicate 50 (ex_pool ''p'' []))
      else ex_response_no_count (replicate 10 (ex_pool ''q'' [])))"

text \<open>Three pages of one pool each, every one announcing three pages.\<close>

definition ex_three_data :: "nat \<Rightarrow> CFListResponse" where
  "ex_three_data p =
     \<lparr> success = True, result = [ex_pool (String_of_nat p) []],
       result_info = Some \<lparr> total_pages = Some 3 \<rparr>, errors = None \<rparr>"

definition ex_three_pages :: "nat \<Rightarrow> Response" where
  "ex_three_pages p =
     \<lparr> status = 200, statusText = ''OK'', text_body = Inr [], json_body = Inr (ex_three_data p) \<rparr>"




definition ex_run :: effect_run where
  "ex_run = \<lparr> run_token = ''secret'', run_accountId = ''0123456789'',
              run_soundEnabled = True, run_id = 0 \<rparr>"

text \<open>The component as mounted: the initial values of its state cells and refs.\<close>

definition mounted :: Dashboard where
  "mounted =
     \<lparr> pools = [], loading = True, err = [], soundEnabled = False,
       prevStatusRef = Map.empty, firstLoadRef = True,
       effects = (\<lambda>n. \<lparr> alive = False, interval_set = False, aborted = False \<rparr>),
       audioCtx = None \<rparr>"

text \<open>A browser whose audio clock does not move while a cycle plays its cues.\<close>

definition ex_env :: audio_env where
  "ex_env = \<lparr> construct = Inr Running, resume_fulfils = True, currentTime = (\<lambda>k. 0) \<rparr>"

text \<open>
  The state after an activation and a first cycle that saw one origin, \<open>a\<close> of pool
  \<open>p1\<close>, with no health value.
\<close>

definition ex_first_unknown :: Dashboard where
  "ex_first_unknown =
     load_settled ex_env ex_run (Inr [ex_pool ''p1'' [ex_origin ''a'' None]])
       (activate ex_run mounted)"

text \<open>The same state with a snapshot that still holds a key of an earlier fetch.\<close>

definition ex_stale :: Dashboard where
  "ex_stale = ex_first_unknown\<lparr>prevStatusRef := [''gone/x'' \<mapsto> Some True]\<rparr>"

definition ex_two_pools :: "CFPool list" where
  "ex_two_pools =
     [ex_pool ''p1'' [ex_origin ''a'' (Some True), ex_origin ''b'' None],
      ex_pool ''p2'' [ex_origin ''a'' (Some False)]]"

text \<open>Two origins of one pool with the same name, so with the same key.\<close>

definition ex_twins :: "CFPool list" where
  "ex_twins = [ex_pool ''p1'' [ex_origin ''a'' (Some True), ex_origin ''a'' (Some False)]]"

definition ex_flapping :: CFPool where
  "ex_flapping = ex_pool ''p1'' [ex_origin ''a'' (Some False), ex_origin ''a'' (Some True)]"

text \<open>What \<open>fetch\<close> rejects with once its signal has fired.\<close>

definition ex_abort :: thrown where
  "ex_abort = JsError ''AbortError'' ''The user aborted a request.''"

text \<open>Three origins of one pool with the same name.\<close>

definition ex_triplets :: CFPool where
  "ex_triplets =
     ex_pool ''p1'' [ex_origin ''a'' (Some True), ex_origin ''a'' (Some True),
                     ex_origin ''a'' (Some False)]"




definition ex_changes :: "change list" where
  "ex_changes = [Offline, Online, Offline]"

section \<open>Lemmas about the diff pass\<close>

lemma entries_from_Nil [simp]: "entries_from p idx [] = []"
  by (simp add: entries_from_def)

lemma entries_from_Cons [simp]:
  "entries_from p idx (og # ogs) =
     (origin_key p og idx, origin_healthy og) # entries_from p (Suc idx) ogs"
  by (simp add: entries_from_def)

lemma events_of_Nil [simp]: "events_of prevMap firstLoad [] = []"
  by (simp add: events_of_def)

lemma events_of_Cons [simp]:
  "events_of prevMap firstLoad ((k, cur) # es) =
     transition firstLoad (map_get prevMap k) cur @ events_of prevMap firstLoad es"
  by (simp add: events_of_def)

lemma events_of_append [simp]:
  "events_of prevMap firstLoad (es @ es') =
     events_of prevMap firstLoad es @ events_of prevMap firstLoad es'"
  by (simp add: events_of_def)

lemma record_all_Nil [simp]: "record_all [] m = m"
  by (simp add: record_all_def)

lemma record_all_Cons [simp]: "record_all ((k, cur) # es) m = record_all es (m(k \<mapsto> cur))"
  by (simp add: record_all_def)

lemma record_all_append [simp]: "record_all (es @ es') m = record_all es' (record_all es m)"
  by (simp add: record_all_def)

lemma origins_forEach_entries:
  "origins_forEach prevMap firstLoad p ogs idx (changes, nextMap) =
     (changes @ events_of prevMap firstLoad (entries_from p idx ogs),
      record_all (entries_from p idx ogs) nextMap)"
  by (induction ogs arbitrary: idx changes nextMap) (simp_all add: Let_def)

lemma items_forEach_entries:
  "items_forEach prevMap firstLoad items (changes, nextMap) =
     (changes @ events_of prevMap firstLoad (entries items),
      record_all (entries items) nextMap)"
  by (induction items arbitrary: changes nextMap)
     (simp_all add: entries_def origins_forEach_entries)

text \<open>A later \<open>set\<close> on a key hides an earlier one: the map built is \<open>map_of\<close> read from the end.\<close>

lemma record_all_map_of: "record_all es m = m ++ map_of (rev es)"
proof (induction es arbitrary: m)
  case Nil
  show ?case by simp
next
  case (Cons e es)
  obtain k cur where e: "e = (k, cur)" by (cases e)
  have "record_all (e # es) m = m(k \<mapsto> cur) ++ map_of (rev es)"
    unfolding e record_all_Cons by (rule Cons.IH)
  also have "\<dots> = m ++ map_of (rev (e # es))"
    by (rule ext) (simp add: e map_add_def split: option.splits)
  finally show ?case .
qed

lemma diff_entries:
  "diff prevMap firstLoad items =
     (events_of prevMap firstLoad (entries items), map_of (rev (entries items)))"
  by (simp add: diff_def items_forEach_entries record_all_map_of)

lemma events_of_first: "events_of prevMap True es = []"
  by (induction es) (auto simp: transition_def)

lemma events_of_filter:
  "events_of prevMap False es =
     map (\<lambda>(k, cur). if the cur then Online else Offline)
       (filter (\<lambda>(k, cur). cur \<noteq> None \<and> map_get prevMap k \<noteq> cur) es)"
  by (induction es) (auto simp: transition_def split: if_splits)

lemma origin_key_ex [simp]:
  "origin_key (ex_pool i ogs) (ex_origin (c # nm) h) idx = i @ ''/'' @ c # nm"
  by (simp add: origin_key_def origin_label_def truthy_def ex_pool_def ex_origin_def)

lemma origins_of_ex [simp]: "origins_of (ex_pool i ogs) = ogs"
  by (simp add: origins_of_def ex_pool_def)

lemma origin_healthy_ex [simp]: "origin_healthy (ex_origin nm h) = h"
  by (simp add: ex_origin_def)

lemma length_entries_from [simp]: "length (entries_from p idx ogs) = length ogs"
  by (simp add: entries_from_def)

lemma entries_from_nth:
  "m < length ogs \<Longrightarrow>
   entries_from p idx ogs ! m = (origin_key p (ogs ! m) (idx + m), origin_healthy (ogs ! m))"
  by (simp add: entries_from_def nth_enumerate_eq)

lemma entries_from_upt:
  "entries_from p 0 ogs =
     map (\<lambda>m. (origin_key p (ogs ! m) m, origin_healthy (ogs ! m))) [0..<length ogs]"
  by (rule nth_equalityI) (simp_all add: entries_from_nth)

lemma entries_from_take: "entries_from p idx (take n ogs) = take n (entries_from p idx ogs)"
  by (rule nth_equalityI) (simp_all add: entries_from_nth)

lemma entries_append [simp]: "entries (ps @ qs) = entries ps @ entries qs"
  by (simp add: entries_def)

lemma entries_Cons [simp]: "entries (p # ps) = entries_from p 0 (origins_of p) @ entries ps"
  by (simp add: entries_def)

lemma map_of_append_absent:
  "k \<notin> fst ` set xs \<Longrightarrow> map_of (xs @ ys) k = map_of ys k"
proof -
  assume "k \<notin> fst ` set xs"
  then have "map_of xs k = None"
    by (simp add: map_of_eq_None_iff)
  then show ?thesis
    by (simp add: map_add_def)
qed

lemma map_of_append_present:
  "map_of xs k = Some v \<Longrightarrow> map_of (xs @ ys) k = Some v"
  by simp

lemma map_of_rev_last:
  assumes i: "i < length es"
      and later: "\<forall>j. i < j \<and> j < length es \<longrightarrow> fst (es ! j) \<noteq> fst (es ! i)"
  shows "map_of (rev es) (fst (es ! i)) = Some (snd (es ! i))"
proof -
  have split: "es = take i es @ es ! i # drop (Suc i) es"
    using i by (rule id_take_nth_drop)
  have absent: "fst (es ! i) \<notin> fst ` set (rev (drop (Suc i) es))"
  proof
    assume "fst (es ! i) \<in> fst ` set (rev (drop (Suc i) es))"
    then obtain e where e: "e \<in> set (drop (Suc i) es)" "fst e = fst (es ! i)"
      by auto
    then obtain n where "n < length (drop (Suc i) es)" "drop (Suc i) es ! n = e"
      by (auto simp: in_set_conv_nth)
    then have "Suc i + n < length es" "es ! (Suc i + n) = e"
      by auto
    with later e(2) show False
      by (metis less_add_Suc1 add_Suc)
  qed
  have "rev es = rev (take i es @ es ! i # drop (Suc i) es)"
    by (rule arg_cong [OF split])
  then have "rev es = rev (drop (Suc i) es) @ (es ! i # rev (take i es))"
    by simp
  then have "map_of (rev es) (fst (es ! i)) =
               map_of (rev (drop (Suc i) es) @ (es ! i # rev (take i es))) (fst (es ! i))"
    by (rule arg_cong)
  also have "\<dots> = map_of (es ! i # rev (take i es)) (fst (es ! i))"
    by (rule map_of_append_absent [OF absent])
  also have "\<dots> = Some (snd (es ! i))"
    by (cases "es ! i") simp
  finally show ?thesis .
qed

lemma last_occurrence:
  "k \<in> fst ` set es \<Longrightarrow>
   \<exists>i<length es. fst (es ! i) = k \<and> (\<forall>j. i < j \<and> j < length es \<longrightarrow> fst (es ! j) \<noteq> k)"
proof (induction es rule: rev_induct)
  case Nil
  then show ?case by simp
next
  case (snoc e es)
  show ?case
  proof (cases "fst e = k")
    case True
    then show ?thesis
      by (intro exI [of _ "length es"]) auto
  next
    case False
    with snoc.prems have "k \<in> fst ` set es" by auto
    from snoc.IH [OF this] obtain i where i: "i < length es" "fst (es ! i) = k"
      "\<forall>j. i < j \<and> j < length es \<longrightarrow> fst (es ! j) \<noteq> k"
      by blast
    show ?thesis
    proof (intro exI [of _ i] conjI allI impI)
      show "i < length (es @ [e])" using i(1) by simp
      show "fst ((es @ [e]) ! i) = k" using i(1,2) by (simp add: nth_append)
      fix j assume "i < j \<and> j < length (es @ [e])"
      then show "fst ((es @ [e]) ! j) \<noteq> k"
        using i(3) False by (cases "j < length es") (auto simp: nth_append)
    qed
  qed
qed

lemma origins_forEach_records:
  assumes "n < length ogs"
  shows "snd (origins_forEach prevMap firstLoad p (take (Suc n) ogs) 0 acc) (origin_key p (ogs ! n) n)
           = Some (origin_healthy (ogs ! n))"
proof -
  obtain changes nextMap where acc: "acc = (changes, nextMap)" by (cases acc)
  let ?es = "entries_from p 0 ogs"
  have "take (Suc n) ?es = take n ?es @ [(origin_key p (ogs ! n) n, origin_healthy (ogs ! n))]"
    using assms by (simp add: take_Suc_conv_app_nth entries_from_nth)
  then show ?thesis
    by (simp add: acc origins_forEach_entries entries_from_take)
qed

lemma origins_forEach_events:
  "fst (origins_forEach prevMap firstLoad p ogs 0 (changes, nextMap)) =
     changes @ concat (map (\<lambda>m. transition firstLoad (map_get prevMap (origin_key p (ogs ! m) m))
                                   (origin_healthy (ogs ! m))) [0..<length ogs])"
  by (simp add: origins_forEach_entries entries_from_upt events_of_def comp_def)

text \<open>
  Two origins of a pool have the same key when they have the same non-empty name,
  or no name and the same non-empty address, wherever they stand in the pool.
\<close>

lemma same_name_same_key:
  "origin_name og = Some nm \<Longrightarrow> origin_name og' = Some nm \<Longrightarrow> nm \<noteq> [] \<Longrightarrow>
   origin_key p og i = origin_key p og' j"
  by (simp add: origin_key_def origin_label_def truthy_def)

lemma same_address_same_key:
  "\<not> truthy (origin_name og) \<Longrightarrow> \<not> truthy (origin_name og') \<Longrightarrow>
   origin_address og = Some a \<Longrightarrow> origin_address og' = Some a \<Longrightarrow> a \<noteq> [] \<Longrightarrow>
   origin_key p og i = origin_key p og' j"
  by (simp add: origin_key_def origin_label_def truthy_def)

section \<open>Lemmas about \<open>load\<close>\<close>

lemma alive_activate [simp]: "alive (effects (activate run s) (run_id run))"
  by (simp add: activate_def)

lemma firstLoadRef_activate [simp]: "firstLoadRef (activate run s)"
  by (simp add: activate_def)

lemma prevStatusRef_activate [simp]: "prevStatusRef (activate run s) = Map.empty"
  by (simp add: activate_def)

lemma audioCtx_activate [simp]: "audioCtx (activate run s) = audioCtx s"
  by (simp add: activate_def)

lemma alive_cleanup [simp]: "\<not> alive (effects (cleanup run s) (run_id run))"
  by (simp add: cleanup_def)

lemma load_diff_entries:
  "load_diff items s =
     (events_of (prevStatusRef s) (firstLoadRef s) (entries items),
      s\<lparr>prevStatusRef := map_of (rev (entries items)), firstLoadRef := False\<rparr>)"
  by (simp add: load_diff_def diff_entries)

lemma play_sounds_Nil [simp]: "play_sounds env sound [] audio = Inr audio"
  by (simp add: play_sounds_def)

lemma effects_load_finally [simp]: "effects (load_finally run s) = effects s"
  by (simp add: load_finally_def)

lemma effects_load_catch [simp]: "effects (load_catch run e s) = effects s"
  by (simp add: load_catch_def)

lemma prevStatusRef_load_catch [simp]: "prevStatusRef (load_catch run e s) = prevStatusRef s"
  by (simp add: load_catch_def load_finally_def)

lemma firstLoadRef_load_catch [simp]: "firstLoadRef (load_catch run e s) = firstLoadRef s"
  by (simp add: load_catch_def load_finally_def)

lemma audioCtx_load_catch [simp]: "audioCtx (load_catch run e s) = audioCtx s"
  by (simp add: load_catch_def load_finally_def)

lemma pools_load_catch [simp]: "pools (load_catch run e s) = pools s"
  by (simp add: load_catch_def load_finally_def)

text \<open>
  A cycle whose fetch succeeded, in a live effect run: the swap of the snapshots,
  then either the sound block completes and the pools are set, or it throws and
  the \<open>catch\<close> block takes over.
\<close>

lemma load_settled_items:
  "alive (effects s (run_id run)) \<Longrightarrow>
   load_settled env run (Inr items) s =
     (case play_sounds env (run_soundEnabled run)
             (events_of (prevStatusRef s) (firstLoadRef s) (entries items)) (audioCtx s) of
        Inl e \<Rightarrow>
          load_catch run e
            (s\<lparr>prevStatusRef := map_of (rev (entries items)), firstLoadRef := False\<rparr>)
      | Inr audio \<Rightarrow>
          s\<lparr> prevStatusRef := map_of (rev (entries items)),
             firstLoadRef := False,
             audioCtx := audio,
             pools := items,
             loading := False \<rparr>)"
  by (simp add: load_settled_def load_diff_entries load_finally_def split: sum.splits)



lemma load_settled_first:
  "alive (effects s (run_id run)) \<Longrightarrow> firstLoadRef s \<Longrightarrow>
   load_settled env run (Inr items) s =
     s\<lparr> prevStatusRef := map_of (rev (entries items)),
        firstLoadRef := False,
        audioCtx := audioCtx s,
        pools := items,
        loading := False \<rparr>"
  by (simp add: load_settled_items events_of_first)

lemma effects_load_settled [simp]: "effects (load_settled env run outcome s) = effects s"
  by (simp add: load_settled_def load_diff_entries split: sum.splits)

lemma prevStatusRef_load_settled:
  "alive (effects s (run_id run)) \<Longrightarrow>
   prevStatusRef (load_settled env run (Inr items) s) = map_of (rev (entries items))"
  by (simp add: load_settled_items split: sum.splits)

lemma firstLoadRef_load_settled:
  "alive (effects s (run_id run)) \<Longrightarrow> \<not> firstLoadRef (load_settled env run (Inr items) s)"
  by (simp add: load_settled_items split: sum.splits)

lemma load_settled_not_alive:
  "\<not> alive (effects s (run_id run)) \<Longrightarrow> load_settled env run outcome s = s"
  by (simp add: load_settled_def load_catch_def load_finally_def split: sum.splits)

lemma load_settled_abort:
  "isAbortError e \<Longrightarrow> load_settled env run (Inl e) s = load_finally run s"
  by (simp add: load_settled_def load_catch_def)


lemma alive_ex_first_unknown [simp]: "alive (effects ex_first_unknown (run_id ex_run))"
  by (simp add: ex_first_unknown_def)

lemma ex_first_unknown_eq:
  "ex_first_unknown =
     (activate ex_run mounted)
       \<lparr> prevStatusRef := [''p1/a'' \<mapsto> None], firstLoadRef := False,
         pools := [ex_pool ''p1'' [ex_origin ''a'' None]], loading := False \<rparr>"
  by (simp add: ex_first_unknown_def load_settled_first entries_def activate_def)

lemma alive_ex_stale [simp]: "alive (effects ex_stale (run_id ex_run))"
  by (simp add: ex_stale_def)

lemma cycles_Nil [simp]: "cycles run [] s = s"
  by (simp add: cycles_def)

lemma cycles_Cons [simp]:
  "cycles run ((env, outcome) # rest) s = cycles run rest (load_settled env run outcome s)"
  by (simp add: cycles_def)


section \<open>Lemmas about the fetch loops\<close>

lemma fetch_loop_rejected:
  "srv (page_request dev args page) = Rejected e \<Longrightarrow>
   fetch_loop dev srv args page all reqs = Some (Inl e, reqs @ [page_request dev args page])"
  by (subst fetch_loop.simps) (simp add: Let_def)

lemma ex_server_page:
  "p = 1 \<or> p = 2 \<or> p = 3 \<Longrightarrow>
   ex_server pages (page_request False ex_args p) = Fulfilled (pages p)"
  by (auto simp add: ex_server_def page_request_def String_of_nat.simps digit_char_def)

lemma fetch_loop_http_error:
  "srv (page_request dev args page) = Fulfilled res \<Longrightarrow> \<not> ok res \<Longrightarrow>
   text_body res = Inr body \<Longrightarrow>
   fetch_loop dev srv args page all reqs =
     Some (Inl (JsError ''Error'' (''HTTP '' @ String_of_nat (status res) @ '': '' @ body)),
           reqs @ [page_request dev args page])"
  by (subst fetch_loop.simps) (simp add: Let_def)



lemma totalPages_of_no_count:
  "(case result_info data of None \<Rightarrow> None | Some info \<Rightarrow> total_pages info) = None \<Longrightarrow>
   totalPages_of data = 1"
  by (simp add: totalPages_of_def split: option.splits)

text \<open>
  In Dashboard.tsx a successful page that reports a page count other than 0 ends the
  loop exactly when the page number has reached the count.
\<close>

lemma fetch_loop_counted:
  assumes "srv (page_request dev args page) = Fulfilled res" "ok res"
    "json_body res = Inr data" "success data"
    "result_info data = Some info" "total_pages info = Some n" "n \<noteq> 0"
  shows "fetch_loop dev srv args page all reqs =
           (if n \<le> int page
            then Some (Inr (all @ result data), reqs @ [page_request dev args page])
            else fetch_loop dev srv args (page + 1) (all @ result data)
                   (reqs @ [page_request dev args page]))"
  using assms by (subst fetch_loop.simps) (simp add: Let_def totalPages_of_def)

text \<open>
  In Dashboard.tsx a successful page without a page count ends the loop, whatever
  its size.
\<close>

lemma fetch_loop_no_count:
  assumes "srv (page_request dev args page) = Fulfilled res" "ok res"
    "json_body res = Inr data" "success data"
    "(case result_info data of None \<Rightarrow> None | Some info \<Rightarrow> total_pages info) = None"
    "1 \<le> page"
  shows "fetch_loop dev srv args page all reqs =
           Some (Inr (all @ result data), reqs @ [page_request dev args page])"
  using assms by (subst fetch_loop.simps) (simp add: Let_def totalPages_of_no_count)

text \<open>
  In the single-file variant such a page ends the loop exactly when it holds fewer
  than \<open>perPage\<close> items.
\<close>

lemma fetch_loop_single_no_count:
  assumes "srv page (pools_request dev args) = Fulfilled res" "ok res"
    "json_body res = Inr data" "success data"
    "(case result_info data of None \<Rightarrow> None | Some info \<Rightarrow> total_pages info) = None"
  shows "fetch_loop_single dev stringify srv args page all reqs =
           (if length (result data) < perPage
            then Some (Inr (all @ result data), reqs @ [pools_request dev args])
            else fetch_loop_single dev stringify srv args (page + 1) (all @ result data)
                   (reqs @ [pools_request dev args]))"
  using assms by (subst fetch_loop_single.simps) (simp add: Let_def totalPages_single_def)

lemma fetchAllPools_single_full_page_no_count:
  "fetchAllPools_single False stringify (\<lambda>n req. Fulfilled (ex_pages_no_count n)) ex_args =
     Some (Inr (replicate 50 (ex_pool ''p'' []) @ replicate 10 (ex_pool ''q'' [])),
           [pools_request False ex_args, pools_request False ex_args])"
proof -
  let ?srv = "\<lambda>n (req :: Request). Fulfilled (ex_pages_no_count n)"
  have "fetch_loop_single False stringify ?srv ex_args 1 [] [] =
          fetch_loop_single False stringify ?srv ex_args 2 (replicate 50 (ex_pool ''p'' []))
            [pools_request False ex_args]"
    by (subst fetch_loop_single_no_count [where res = "ex_pages_no_count 1"
          and data = "\<lparr> success = True, result = replicate 50 (ex_pool ''p'' []),
                         result_info = None, errors = None \<rparr>"])
       (simp_all add: ex_pages_no_count_def ex_response_no_count_def ok_def perPage_def
          del: One_nat_def)
  also have "\<dots> = Some (Inr (replicate 50 (ex_pool ''p'' []) @ replicate 10 (ex_pool ''q'' [])),
                     [pools_request False ex_args, pools_request False ex_args])"
    by (subst fetch_loop_single_no_count [where res = "ex_pages_no_count 2"
          and data = "\<lparr> success = True, result = replicate 10 (ex_pool ''q'' []),
                         result_info = None, errors = None \<rparr>"])
       (simp_all add: ex_pages_no_count_def ex_response_no_count_def ok_def perPage_def
          del: One_nat_def)
  finally show ?thesis
    by (simp add: fetchAllPools_single_def)
qed

section \<open>Lemmas about the audio cues\<close>

lemma getAudioCtx_Some [simp]: "getAudioCtx env (Some ctx) = Inr ctx"
  by (simp add: getAudioCtx_def)

lemma scheduled_try_resume [simp]: "scheduled (try_resume env ctx) = scheduled ctx"
  by (simp add: try_resume_def)

lemma has_audio_Some [simp]: "has_audio env (Some ctx)"
  by (simp add: has_audio_def)

lemma sched_Some [simp]: "sched (Some ctx) = scheduled ctx"
  by (simp add: sched_def)

lemma has_audio_getAudioCtx:
  "has_audio env audio \<Longrightarrow> \<exists>ctx. getAudioCtx env audio = Inr ctx \<and> scheduled ctx = sched audio"
  by (auto simp: has_audio_def getAudioCtx_def sched_def split: option.splits sum.splits)

lemma no_audio_getAudioCtx:
  "\<not> has_audio env audio \<Longrightarrow> \<exists>e. audio = None \<and> construct env = Inl e \<and> getAudioCtx env audio = Inl e"
  by (auto simp: has_audio_def getAudioCtx_def split: option.splits sum.splits)

lemma playBeep_ok:
  assumes "has_audio env audio"
  shows "\<exists>ctx. playBeep env freq durationMs type audio = Inr (Some ctx)
           \<and> scheduled ctx =
               sched audio @ [beep type freq durationMs (currentTime env (length (sched audio)))]"
proof -
  from has_audio_getAudioCtx [OF assms] obtain ctx0 where
    "getAudioCtx env audio = Inr ctx0" "scheduled ctx0 = sched audio"
    by blast
  then show ?thesis
    by (simp add: playBeep_def beep_def Let_def)
qed

lemma playOfflineSound_ok:
  "\<exists>ctx'. playOfflineSound env (Some ctx) = Inr (Some ctx')
     \<and> scheduled ctx' =
         scheduled ctx @ [beep Sawtooth 300 220 (currentTime env (length (scheduled ctx)))]"
  using playBeep_ok [of env "Some ctx" 300 220 Sawtooth]
  by (simp add: playOfflineSound_def)

lemma playOnlineSound_ok:
  "\<exists>ctx'. playOnlineSound env (Some ctx) = Inr (Some ctx')
     \<and> scheduled ctx' =
         scheduled ctx @
           [beep Triangle 880 120 (currentTime env (length (scheduled ctx))),
            beep Triangle 1320 100 (currentTime env (length (scheduled ctx) + 1))]"
proof -
  from playBeep_ok [of env "Some ctx" 880 120 Triangle] obtain ctx1 where
    one: "playBeep env 880 120 Triangle (Some ctx) = Inr (Some ctx1)"
      "scheduled ctx1 =
         scheduled ctx @ [beep Triangle 880 120 (currentTime env (length (scheduled ctx)))]"
    by auto
  from playBeep_ok [of env "Some ctx1" 1320 100 Triangle] obtain ctx2 where
    two: "playBeep env 1320 100 Triangle (Some ctx1) = Inr (Some ctx2)"
      "scheduled ctx2 =
         scheduled ctx1 @ [beep Triangle 1320 100 (currentTime env (length (scheduled ctx1)))]"
    by auto
  show ?thesis
    using one two by (simp add: playOnlineSound_def)
qed

lemma offline_loop_ok:
  "\<exists>ctx'. for_await n (playOfflineSound env) (Some ctx) = Inr (Some ctx')
     \<and> scheduled ctx' =
         scheduled ctx @
           map (\<lambda>m. beep Sawtooth 300 220 (currentTime env (length (scheduled ctx) + m))) [0..<n]"
proof (induction n arbitrary: ctx)
  case 0
  show ?case by simp
next
  case (Suc n)
  from playOfflineSound_ok [of env ctx] obtain ctx1 where
    one: "playOfflineSound env (Some ctx) = Inr (Some ctx1)"
      "scheduled ctx1 =
         scheduled ctx @ [beep Sawtooth 300 220 (currentTime env (length (scheduled ctx)))]"
    by blast
  from Suc.IH [of ctx1] obtain ctx' where
    rest: "for_await n (playOfflineSound env) (Some ctx1) = Inr (Some ctx')"
      "scheduled ctx' =
         scheduled ctx1 @
           map (\<lambda>m. beep Sawtooth 300 220 (currentTime env (length (scheduled ctx1) + m))) [0..<n]"
    by blast
  show ?case
    using one rest by (simp add: map_upt_Suc del: upt_Suc)
qed

lemma online_loop_ok:
  "\<exists>ctx'. for_await n (playOnlineSound env) (Some ctx) = Inr (Some ctx')
     \<and> scheduled ctx' =
         scheduled ctx @
           concat (map (\<lambda>m. [beep Triangle 880 120
                                (currentTime env (length (scheduled ctx) + 2 * m)),
                              beep Triangle 1320 100
                                (currentTime env (length (scheduled ctx) + 2 * m + 1))]) [0..<n])"
proof (induction n arbitrary: ctx)
  case 0
  show ?case by simp
next
  case (Suc n)
  from playOnlineSound_ok [of env ctx] obtain ctx1 where
    one: "playOnlineSound env (Some ctx) = Inr (Some ctx1)"
      "scheduled ctx1 =
         scheduled ctx @
           [beep Triangle 880 120 (currentTime env (length (scheduled ctx))),
            beep Triangle 1320 100 (currentTime env (length (scheduled ctx) + 1))]"
    by blast
  from Suc.IH [of ctx1] obtain ctx' where
    rest: "for_await n (playOnlineSound env) (Some ctx1) = Inr (Some ctx')"
      "scheduled ctx' =
         scheduled ctx1 @
           concat (map (\<lambda>m. [beep Triangle 880 120
                                (currentTime env (length (scheduled ctx1) + 2 * m)),
                              beep Triangle 1320 100
                                (currentTime env (length (scheduled ctx1) + 2 * m + 1))]) [0..<n])"
    by blast
  show ?case
    using one rest by (simp add: map_upt_Suc add.assoc del: upt_Suc)
qed

lemma resume_swallowed_ok:
  "has_audio env audio \<Longrightarrow>
   \<exists>ctx. resume_swallowed env audio = Some ctx \<and> scheduled ctx = sched audio"
  using has_audio_getAudioCtx [of env audio] by (auto simp: resume_swallowed_def)

text \<open>What one pass of the sound block adds to the context, when there is one to be had.\<close>

lemma sched_play_sounds:
  fixes env audio changes
  defines "offs \<equiv> length (filter (\<lambda>c. c = Offline) changes)"
      and "ons \<equiv> length (filter (\<lambda>c. c = Online) changes)"
      and "n \<equiv> length (sched audio)"
  assumes "sound" "changes \<noteq> []" "has_audio env audio"
  shows "\<exists>ctx. play_sounds env sound changes audio = Inr (Some ctx)
           \<and> scheduled ctx =
               sched audio
               @ map (\<lambda>m. beep Sawtooth 300 220 (currentTime env (n + m))) [0..<offs]
               @ concat (map (\<lambda>m. [beep Triangle 880 120 (currentTime env (n + offs + 2 * m)),
                                    beep Triangle 1320 100
                                      (currentTime env (n + offs + 2 * m + 1))])
                           [0..<ons])"
proof -
  from resume_swallowed_ok [OF assms(6)] obtain ctx1 where
    one: "resume_swallowed env audio = Some ctx1" "scheduled ctx1 = sched audio"
    by blast
  from offline_loop_ok [of offs env ctx1] obtain ctx2 where
    two: "for_await offs (playOfflineSound env) (Some ctx1) = Inr (Some ctx2)"
      "scheduled ctx2 =
         scheduled ctx1 @
           map (\<lambda>m. beep Sawtooth 300 220 (currentTime env (length (scheduled ctx1) + m)))
             [0..<offs]"
    by blast
  from online_loop_ok [of ons env ctx2] obtain ctx3 where
    three: "for_await ons (playOnlineSound env) (Some ctx2) = Inr (Some ctx3)"
      "scheduled ctx3 =
         scheduled ctx2 @
           concat (map (\<lambda>m. [beep Triangle 880 120
                                (currentTime env (length (scheduled ctx2) + 2 * m)),
                              beep Triangle 1320 100
                                (currentTime env (length (scheduled ctx2) + 2 * m + 1))])
                     [0..<ons])"
    by blast
  show ?thesis
    using assms(4,5) one two three
    by (simp add: play_sounds_def Let_def offs_def [symmetric] ons_def [symmetric] n_def)
qed

text \<open>
  The sound block throws exactly when it has cues to play, there is no context yet
  and the constructor throws; it throws what the constructor throws, and the
  module variable is still \<open>null\<close> then.
\<close>

lemma play_sounds_throws:
  "play_sounds env sound changes audio = Inl e \<longleftrightarrow>
     sound \<and> changes \<noteq> [] \<and> audio = None \<and> construct env = Inl e"
proof (cases "sound \<and> changes \<noteq> []")
  case False
  then show ?thesis by (auto simp: play_sounds_def)
next
  case True
  show ?thesis
  proof (cases "has_audio env audio")
    case True
    from sched_play_sounds [of sound changes env audio] \<open>sound \<and> changes \<noteq> []\<close> True
    have "\<exists>ctx. play_sounds env sound changes audio = Inr (Some ctx)"
      by blast
    moreover have "\<not> (audio = None \<and> construct env = Inl e)"
      using True by (auto simp: has_audio_def)
    ultimately show ?thesis by auto
  next
    case False
    from no_audio_getAudioCtx [OF False] obtain e0 where
      e0: "audio = None" "construct env = Inl e0" "getAudioCtx env audio = Inl e0"
      by blast
    have beep: "playBeep env freq durationMs type None = Inl e0" for freq durationMs type
      using e0 by (simp add: playBeep_def)
    obtain c cs where changes: "changes = c # cs"
      using True by (cases changes) auto
    have "play_sounds env sound changes audio = Inl e0"
      using True e0 beep changes
      by (cases c; cases "length (filter (\<lambda>c. c = Offline) cs)")
         (simp_all add: play_sounds_def resume_swallowed_def playOfflineSound_def
            playOnlineSound_def Let_def)
    then show ?thesis
      using True e0 by auto
  qed
qed

text \<open>
  The order in which a pass sets its oscillators up: one of 300 Hz for each "offline"
  in \<open>changes\<close>, then the pair 880 Hz, 1320 Hz for each "online", whatever the order
  of the events in \<open>changes\<close>.
\<close>

lemma play_sounds_order:
  assumes "sound" "changes \<noteq> []" "has_audio env audio"
  shows "\<exists>ctx. play_sounds env sound changes audio = Inr (Some ctx)
           \<and> map frequency (scheduled ctx) =
               map frequency (sched audio)
               @ replicate (length (filter (\<lambda>c. c = Offline) changes)) 300
               @ concat (replicate (length (filter (\<lambda>c. c = Online) changes)) [880, 1320])"
  using sched_play_sounds [OF assms]
  by (auto simp add: beep_def comp_def map_concat map_replicate_const)

text \<open>
  When a pass plays two "offline" cues, the second tone starts before the first one
  has ended unless the clock has moved on by the 0.22 s of the first tone between
  the two calls of \<open>playBeep\<close>; nothing in the code waits for that.
\<close>

lemma two_offline_cues:
  assumes "has_audio env audio"
  shows "\<exists>ctx. play_sounds env True [Offline, Offline] audio = Inr (Some ctx)
           \<and> scheduled ctx =
               sched audio @
                 [beep Sawtooth 300 220 (currentTime env (length (sched audio))),
                  beep Sawtooth 300 220 (currentTime env (length (sched audio) + 1))]"
  using sched_play_sounds [of True "[Offline, Offline]" env audio] assms
  by simp

lemma two_offline_cues_overlap:
  assumes "has_audio env audio"
      and "play_sounds env True [Offline, Offline] audio = Inr (Some ctx)"
  shows "startTime (scheduled ctx ! (length (sched audio) + 1))
           < stopTime (scheduled ctx ! length (sched audio))
         \<longleftrightarrow> currentTime env (length (sched audio) + 1)
               < currentTime env (length (sched audio)) + 11 / 50"
  using two_offline_cues [OF assms(1)] assms(2)
  by (auto simp add: nth_append beep_def)


lemma sounds_complete_muted:
  "\<not> run_soundEnabled run \<Longrightarrow> sounds_complete run successes s"
proof (induction successes arbitrary: s)
  case Nil
  show ?case by simp
next
  case (Cons c successes)
  obtain env items where c: "c = (env, items)" by (cases c)
  have "play_sounds env (run_soundEnabled run) (fst (load_diff items s')) (audioCtx s') \<noteq>
          Inl e" for e s'
    using Cons.prems by (simp add: play_sounds_throws)
  then show ?case
    using Cons by (auto simp: c split: sum.splits)
qed

section \<open>The claims\<close>

text \<open>
  C1 (as amended). On an invocation that is not the first, the diff pass appends one
  event per origin whose current health value is a boolean that differs from the
  value recorded for its key, in fetch order, and nothing else. The recorded value
  need not be a boolean: a key that is absent or recorded as undefined differs from
  every boolean.
\<close>

theorem diff_events_current_boolean_differs:
  "fst (diff prevMap False items) =
     map (\<lambda>(k, cur). if the cur then Online else Offline)
       (filter (\<lambda>(k, cur). cur \<noteq> None \<and> map_get prevMap k \<noteq> cur) (entries items))"
  by (simp add: diff_entries events_of_filter)

text \<open>
  C1 as stated fails: after a first cycle that recorded undefined for \<open>p1/a\<close>, a second
  cycle that sees the origin healthy pushes "online"; with the key absent and the
  origin unhealthy, the pass pushes "offline".
\<close>

theorem diff_event_from_undefined:
  "\<not> firstLoadRef ex_first_unknown
   \<and> prevStatusRef ex_first_unknown ''p1/a'' = Some None
   \<and> map_get (prevStatusRef ex_first_unknown) ''p1/a'' = None
   \<and> fst (diff (prevStatusRef ex_first_unknown) (firstLoadRef ex_first_unknown)
            [ex_pool ''p1'' [ex_origin ''a'' (Some True)]]) = [Online]
   \<and> map_get Map.empty ''p1/a'' = None
   \<and> fst (diff Map.empty False [ex_pool ''p1'' [ex_origin ''a'' (Some False)]]) = [Offline]"
  by (simp add: ex_first_unknown_eq diff_entries entries_def map_get_def transition_def)

text \<open>
  C2, at a server that omits the page count and has sixty pools. The first page
  holds fifty items, which is not fewer than the page size, yet \<open>fetchAllPools\<close> of
  Dashboard.tsx returns after that one request with the fifty pools.
\<close>

theorem fetchAllPools_full_page_no_count:
  "fetchAllPools False (ex_server ex_pages_no_count) ex_args =
     Some (Inr (replicate 50 (ex_pool ''p'' [])), [page_request False ex_args 1])
   \<and> \<not> length (replicate 50 (ex_pool ''p'' [])) < perPage"
proof -
  have "fetch_loop False (ex_server ex_pages_no_count) ex_args 1 [] [] =
          Some (Inr ([] @ result \<lparr> success = True, result = replicate 50 (ex_pool ''p'' []),
                                   result_info = None, errors = None \<rparr>),
                [] @ [page_request False ex_args 1])"
    by (rule fetch_loop_no_count [where res = "ex_pages_no_count 1"])
       (simp_all add: ex_server_page ex_pages_no_count_def ex_response_no_count_def ok_def
          del: One_nat_def)
  then show ?thesis
    by (simp add: fetchAllPools_def perPage_def)
qed

text \<open>
  C3. If the requests for the pages 1, 2 and 3 are each answered with a success
  status and a body that has \<open>success\<close> set and reports \<open>total_pages = 3\<close>, then
  \<open>fetchAllPools\<close> returns, has issued exactly these three requests in this order
  (each asking for \<open>per_page=50\<close>), and returns the three \<open>result\<close> arrays
  concatenated in that order.
\<close>

theorem fetchAllPools_three_pages:
  assumes served: "\<And>p. p \<in> {1, 2, 3} \<Longrightarrow> srv (page_request dev args p) = Fulfilled (res p)"
      and succeeds: "\<And>p. p \<in> {1, 2, 3} \<Longrightarrow>
                       ok (res p) \<and> json_body (res p) = Inr (data p) \<and> success (data p)"
      and three: "\<And>p. p \<in> {1, 2, 3} \<Longrightarrow>
                    \<exists>info. result_info (data p) = Some info \<and> total_pages info = Some 3"
  shows "fetchAllPools dev srv args =
           Some (Inr (result (data 1) @ result (data 2) @ result (data 3)),
                 [page_request dev args 1, page_request dev args 2, page_request dev args 3])"
proof -
  have total: "totalPages_of (data p) = 3" if "p \<in> {1, 2, 3}" for p
    using three [OF that] by (auto simp: totalPages_of_def)
  have step: "fetch_loop dev srv args p all reqs =
                fetch_loop dev srv args q (all @ result (data p)) (reqs @ [page_request dev args p])"
    if "p \<in> {1, 2}" "q = p + 1" for p q all reqs
  proof -
    from that have p: "p \<in> {1, 2, 3}" and less: "int p < 3" by auto
    show ?thesis
      using served [OF p] succeeds [OF p] total [OF p] less that(2)
      by (subst fetch_loop.simps) (simp add: Let_def)
  qed
  have last: "fetch_loop dev srv args 3 all reqs =
                Some (Inr (all @ result (data 3)), reqs @ [page_request dev args 3])" for all reqs
    using served [of 3] succeeds [of 3] total [of 3]
    by (subst fetch_loop.simps) (simp add: Let_def)
  have "fetchAllPools dev srv args =
          fetch_loop dev srv args 2 (result (data 1)) [page_request dev args 1]"
    unfolding fetchAllPools_def using step [of 1 2 "[]" "[]"] by simp
  also have "\<dots> = fetch_loop dev srv args 3 (result (data 1) @ result (data 2))
                    [page_request dev args 1, page_request dev args 2]"
    using step [of 2 3] by simp
  also have "\<dots> = Some (Inr (result (data 1) @ result (data 2) @ result (data 3)),
                     [page_request dev args 1, page_request dev args 2, page_request dev args 3])"
    using last by simp
  finally show ?thesis .
qed

theorem fetchAllPools_three_pages_witness:
  "fetchAllPools False (ex_server ex_three_pages) ex_args =
     Some (Inr [ex_pool ''1'' [], ex_pool ''2'' [], ex_pool ''3'' []],
           [page_request False ex_args 1, page_request False ex_args 2,
            page_request False ex_args 3])
   \<and> map url [page_request False ex_args 1, page_request False ex_args 2,
               page_request False ex_args 3] =
       [''https://api.cloudflare.com/client/v4/accounts/0123456789/load_balancers/pools?per_page=50&page=1'',
        ''https://api.cloudflare.com/client/v4/accounts/0123456789/load_balancers/pools?per_page=50&page=2'',
        ''https://api.cloudflare.com/client/v4/accounts/0123456789/load_balancers/pools?per_page=50&page=3'']"
proof -
  have "fetchAllPools False (ex_server ex_three_pages) ex_args =
          Some (Inr (result (ex_three_data 1) @ result (ex_three_data 2) @ result (ex_three_data 3)),
                [page_request False ex_args 1, page_request False ex_args 2,
                 page_request False ex_args 3])"
  proof (rule fetchAllPools_three_pages [where res = ex_three_pages])
    fix p :: nat
    assume p: "p \<in> {1, 2, 3}"
    then show "ex_server ex_three_pages (page_request False ex_args p) = Fulfilled (ex_three_pages p)"
      by (intro ex_server_page) auto
    show "ok (ex_three_pages p) \<and> json_body (ex_three_pages p) = Inr (ex_three_data p)
            \<and> success (ex_three_data p)"
      by (simp add: ex_three_pages_def ex_three_data_def ok_def)
    show "\<exists>info. result_info (ex_three_data p) = Some info \<and> total_pages info = Some 3"
      by (simp add: ex_three_data_def)
  qed
  then show ?thesis
    by (simp add: ex_three_data_def String_of_nat.simps digit_char_def page_request_def
        ex_args_def CF_BASE_def perPage_def)
qed




text \<open>
  C5. Whatever the state before (so whatever the snapshot held), and whatever the
  fetch returns: the cycle that follows an activation pushes no event, leaves the
  audio context as it was, stores the map built from the fetch as the snapshot and
  lowers the first-load flag. The flag alone decides this: a pass with the flag up
  pushes nothing against any snapshot. The next cycle is diffed, with the flag
  down, against the snapshot the first one stored.
\<close>

theorem first_cycle_is_silent:
  "fst (load_diff items (s\<lparr>firstLoadRef := True\<rparr>)) = []
   \<and> fst (load_diff items (activate run s)) = []
   \<and> audioCtx (load_settled env run (Inr items) (activate run s)) = audioCtx s
   \<and> prevStatusRef (load_settled env run (Inr items) (activate run s)) =
       snd (diff Map.empty True items)
   \<and> snd (diff Map.empty True items) = map_of (rev (entries items))
   \<and> \<not> firstLoadRef (load_settled env run (Inr items) (activate run s))
   \<and> fst (load_diff items' (load_settled env run (Inr items) (activate run s))) =
       fst (diff (map_of (rev (entries items))) False items')"
  by (simp add: load_settled_first load_diff_entries events_of_first diff_entries)

theorem first_cycle_is_silent_witness:
  "fst (load_diff [ex_pool ''p1'' [ex_origin ''a'' (Some True)]] (activate ex_run mounted)) = []
   \<and> audioCtx (load_settled ex_env ex_run (Inr [ex_pool ''p1'' [ex_origin ''a'' (Some True)]])
        (activate ex_run mounted)) = None
   \<and> prevStatusRef (load_settled ex_env ex_run (Inr [ex_pool ''p1'' [ex_origin ''a'' (Some True)]])
        (activate ex_run mounted)) ''p1/a'' = Some (Some True)
   \<and> fst (load_diff [ex_pool ''p1'' [ex_origin ''a'' (Some False)]]
        (load_settled ex_env ex_run (Inr [ex_pool ''p1'' [ex_origin ''a'' (Some True)]])
           (activate ex_run mounted))) = [Offline]"
  using first_cycle_is_silent [of "[ex_pool ''p1'' [ex_origin ''a'' (Some True)]]" mounted ex_run
      ex_env "[ex_pool ''p1'' [ex_origin ''a'' (Some False)]]"]
  by (simp add: diff_entries entries_def map_get_def transition_def mounted_def)

text \<open>
  C6, on the events offline, online, offline with a clock that stands still while
  the pass runs. The pass sets up four oscillators in the order offline, offline,
  online (two tones), but \<open>playBeep\<close> returns as soon as its oscillator is
  scheduled, so each one starts at the time the clock shows then: all four start
  at time 0, the second offline tone 0.22 s before the first one ends, and the online
  tones together with the offline ones.
\<close>

theorem cues_sound_together_on_a_still_clock:
  "play_sounds ex_env True ex_changes None =
     Inr (Some \<lparr> ctx_state = Running,
            scheduled =
              [\<lparr> osc_type = Sawtooth, frequency = 300, gain = 2 / 25,
                 startTime = 0, stopTime = 11 / 50 \<rparr>,
               \<lparr> osc_type = Sawtooth, frequency = 300, gain = 2 / 25,
                 startTime = 0, stopTime = 11 / 50 \<rparr>,
               \<lparr> osc_type = Triangle, frequency = 880, gain = 2 / 25,
                 startTime = 0, stopTime = 3 / 25 \<rparr>,
               \<lparr> osc_type = Triangle, frequency = 1320, gain = 2 / 25,
                 startTime = 0, stopTime = 1 / 10 \<rparr>] \<rparr>)"
  by (simp add: play_sounds_def ex_changes_def ex_env_def Let_def playOfflineSound_def
      playOnlineSound_def playBeep_def getAudioCtx_def try_resume_def resume_swallowed_def
      eval_nat_numeral)

text \<open>
  C7. A cycle whose fetch rejects with an abort error leaves the snapshot, the
  first-load flag, the audio context, the pools and the error message as they
  were; this is what happens when the first request itself is rejected with such
  an error. After the cleanup of its effect run, a cycle changes nothing at all,
  whatever its fetch settles with.
\<close>

theorem cancelled_cycle_changes_nothing:
  "(isAbortError e \<longrightarrow>
      prevStatusRef (load_settled env run (Inl e) s) = prevStatusRef s
    \<and> firstLoadRef (load_settled env run (Inl e) s) = firstLoadRef s
    \<and> audioCtx (load_settled env run (Inl e) s) = audioCtx s
    \<and> pools (load_settled env run (Inl e) s) = pools s
    \<and> err (load_settled env run (Inl e) s) = err s)
   \<and> (isAbortError e \<and> srv (page_request dev (fetch_args run) 1) = Rejected e \<longrightarrow>
        load dev srv env run s = Some (load_settled env run (Inl e) s))
   \<and> load_settled env run outcome (cleanup run s) = cleanup run s"
  by (simp add: load_settled_abort load_finally_def load_settled_not_alive load_def
      fetchAllPools_def fetch_loop_rejected)

theorem cancelled_cycle_changes_nothing_witness:
  "isAbortError ex_abort
   \<and> load False (\<lambda>req. Rejected ex_abort) ex_env ex_run ex_first_unknown =
       Some (load_finally ex_run ex_first_unknown)
   \<and> load_settled ex_env ex_run (Inr ex_twins) (cleanup ex_run ex_first_unknown) =
       cleanup ex_run ex_first_unknown
   \<and> load_settled ex_env ex_run (Inl (JsError ''Error'' ''HTTP 403: denied''))
       (cleanup ex_run ex_first_unknown) = cleanup ex_run ex_first_unknown"
  using cancelled_cycle_changes_nothing [of ex_abort ex_env ex_run ex_first_unknown
      "\<lambda>req. Rejected ex_abort" False "Inr ex_twins"]
    cancelled_cycle_changes_nothing [of ex_abort ex_env ex_run ex_first_unknown
      "\<lambda>req. Rejected ex_abort" False "Inl (JsError ''Error'' ''HTTP 403: denied'')"]
  by (simp add: ex_abort_def isAbortError_def load_settled_abort)

text \<open>
  C8 (as amended). After a successful cycle of a live effect run the snapshot is the
  map built from this fetch alone (the same for every previous snapshot): a key
  that no origin of the fetch yields is absent, and a key that some origin yields
  is present and holds the health value, undefined included, of the last origin
  in fetch order that yields it. In particular an origin whose key no later origin
  yields has its value recorded.
\<close>

theorem snapshot_is_the_built_map:
  assumes "alive (effects s (run_id run))"
  shows "prevStatusRef (load_settled env run (Inr items) s) = snd (diff prevMap firstLoad items)
    \<and> (\<forall>k. k \<notin> fst ` set (entries items) \<longrightarrow>
          prevStatusRef (load_settled env run (Inr items) s) k = None)
    \<and> (\<forall>k. k \<in> fst ` set (entries items) \<longrightarrow>
          (\<exists>i<length (entries items).
             fst (entries items ! i) = k
           \<and> (\<forall>j. i < j \<and> j < length (entries items) \<longrightarrow> fst (entries items ! j) \<noteq> k)
           \<and> prevStatusRef (load_settled env run (Inr items) s) k =
               Some (snd (entries items ! i))))
    \<and> (\<forall>i<length (entries items).
          (\<forall>j. i < j \<and> j < length (entries items) \<longrightarrow>
               fst (entries items ! j) \<noteq> fst (entries items ! i)) \<longrightarrow>
          prevStatusRef (load_settled env run (Inr items) s) (fst (entries items ! i)) =
            Some (snd (entries items ! i)))"
proof -
  let ?es = "entries items"
  have snap: "prevStatusRef (load_settled env run (Inr items) s) = map_of (rev ?es)"
    using assms by (rule prevStatusRef_load_settled)
  have absent: "map_of (rev ?es) k = None" if "k \<notin> fst ` set ?es" for k
    using that by (simp add: map_of_eq_None_iff)
  have last: "map_of (rev ?es) (fst (?es ! i)) = Some (snd (?es ! i))"
    if "i < length ?es" "\<forall>j. i < j \<and> j < length ?es \<longrightarrow> fst (?es ! j) \<noteq> fst (?es ! i)" for i
    using that by (rule map_of_rev_last)
  have present: "\<exists>i<length ?es. fst (?es ! i) = k
        \<and> (\<forall>j. i < j \<and> j < length ?es \<longrightarrow> fst (?es ! j) \<noteq> k)
        \<and> map_of (rev ?es) k = Some (snd (?es ! i))" if "k \<in> fst ` set ?es" for k
  proof -
    from last_occurrence [OF that] obtain i where i: "i < length ?es" "fst (?es ! i) = k"
      "\<forall>j. i < j \<and> j < length ?es \<longrightarrow> fst (?es ! j) \<noteq> k"
      by blast
    then have "map_of (rev ?es) k = Some (snd (?es ! i))"
      using last [of i] by simp
    with i show ?thesis by blast
  qed
  show ?thesis
    unfolding snap using absent present last by (simp add: diff_entries)
qed

theorem snapshot_is_the_built_map_witness:
  "alive (effects ex_stale (run_id ex_run))
   \<and> prevStatusRef ex_stale ''gone/x'' = Some (Some True)
   \<and> prevStatusRef (load_settled ex_env ex_run (Inr ex_two_pools) ex_stale) ''gone/x'' = None
   \<and> prevStatusRef (load_settled ex_env ex_run (Inr ex_two_pools) ex_stale) ''p1/a'' =
       Some (Some True)
   \<and> prevStatusRef (load_settled ex_env ex_run (Inr ex_two_pools) ex_stale) ''p1/b'' = Some None
   \<and> prevStatusRef (load_settled ex_env ex_run (Inr ex_two_pools) ex_stale) ''p2/a'' =
       Some (Some False)"
  using snapshot_is_the_built_map [of ex_stale ex_run ex_env ex_two_pools Map.empty True]
  by (simp add: diff_entries ex_two_pools_def entries_def) (simp add: ex_stale_def)

text \<open>
  C8 as stated fails for the first of two origins that share a key: it is healthy,
  and the snapshot holds \<open>false\<close> under its key.
\<close>

theorem snapshot_keeps_later_twin_only:
  "origin_key (ex_pool ''p1'' []) (ex_origin ''a'' (Some True)) 0 = ''p1/a''
   \<and> origin_key (ex_pool ''p1'' []) (ex_origin ''a'' (Some False)) 1 = ''p1/a''
   \<and> entries ex_twins = [(''p1/a'', Some True), (''p1/a'', Some False)]
   \<and> prevStatusRef (load_settled ex_env ex_run (Inr ex_twins) (activate ex_run mounted)) ''p1/a''
       = Some (Some False)"
  by (simp add: prevStatusRef_load_settled ex_twins_def entries_def)




text \<open>
  C10 (as amended). Let the origins at the positions \<open>i < j\<close> of a pool yield the same
  key \<open>k\<close>. When the pass has handled position \<open>i\<close> the map holds the health of that
  origin under \<open>k\<close>; when it has handled position \<open>j\<close> it holds the health of the later
  origin instead. The next snapshot records under \<open>k\<close> the health of the last origin
  of the whole fetch that yields \<open>k\<close>: that of position \<open>j\<close> when no origin further on
  in the fetch yields \<open>k\<close> again. The events of both origins are decided against the
  one value the previous snapshot holds under \<open>k\<close>.
\<close>

theorem duplicate_key_later_origin_wins:
  assumes "i < j" "j < length (origins_of p)"
      and "origin_key p (origins_of p ! i) i = k" "origin_key p (origins_of p ! j) j = k"
  shows "snd (origins_forEach prevMap firstLoad p (take (Suc i) (origins_of p)) 0 acc) k =
           Some (origin_healthy (origins_of p ! i))
    \<and> snd (origins_forEach prevMap firstLoad p (take (Suc j) (origins_of p)) 0 acc) k =
           Some (origin_healthy (origins_of p ! j))
    \<and> (\<exists>n<length (entries (ps @ p # qs)).
          fst (entries (ps @ p # qs) ! n) = k
        \<and> (\<forall>m. n < m \<and> m < length (entries (ps @ p # qs)) \<longrightarrow>
               fst (entries (ps @ p # qs) ! m) \<noteq> k)
        \<and> snd (diff prevMap firstLoad (ps @ p # qs)) k = Some (snd (entries (ps @ p # qs) ! n)))
    \<and> ((\<forall>m. j < m \<and> m < length (origins_of p) \<longrightarrow> origin_key p (origins_of p ! m) m \<noteq> k)
         \<and> k \<notin> fst ` set (entries qs) \<longrightarrow>
        snd (diff prevMap firstLoad (ps @ p # qs)) k = Some (origin_healthy (origins_of p ! j)))
    \<and> fst (origins_forEach prevMap firstLoad p (origins_of p) 0 (changes, nextMap)) =
        changes @ concat (map (\<lambda>m. transition firstLoad
                                     (map_get prevMap (if m = i \<or> m = j then k
                                                       else origin_key p (origins_of p ! m) m))
                                     (origin_healthy (origins_of p ! m)))
                            [0..<length (origins_of p)])"
proof -
  let ?ogs = "origins_of p"
  let ?es = "entries_from p 0 ?ogs"
  have i: "i < length ?ogs" using assms(1,2) by simp
  have first: "snd (origins_forEach prevMap firstLoad p (take (Suc i) ?ogs) 0 acc) k =
                 Some (origin_healthy (?ogs ! i))"
    using origins_forEach_records [OF i, of prevMap firstLoad p acc] assms(3) by simp
  have second: "snd (origins_forEach prevMap firstLoad p (take (Suc j) ?ogs) 0 acc) k =
                  Some (origin_healthy (?ogs ! j))"
    using origins_forEach_records [OF assms(2), of prevMap firstLoad p acc] assms(4) by simp
  have final: "snd (diff prevMap firstLoad (ps @ p # qs)) k = Some (origin_healthy (?ogs ! j))"
    if later: "\<forall>m. j < m \<and> m < length ?ogs \<longrightarrow> origin_key p (?ogs ! m) m \<noteq> k"
      and rest: "k \<notin> fst ` set (entries qs)"
  proof -
    have ej: "?es ! j = (k, origin_healthy (?ogs ! j))"
      using assms(2,4) by (simp add: entries_from_nth)
    have "\<forall>m. j < m \<and> m < length ?es \<longrightarrow> fst (?es ! m) \<noteq> fst (?es ! j)"
      using later ej by (simp add: entries_from_nth)
    then have "map_of (rev ?es) (fst (?es ! j)) = Some (snd (?es ! j))"
      using assms(2) by (intro map_of_rev_last) simp_all
    then have pool: "map_of (rev ?es) k = Some (origin_healthy (?ogs ! j))"
      using ej by simp
    have "k \<notin> fst ` set (rev (entries qs))"
      using rest by simp
    then have "map_of (rev (entries qs) @ (rev ?es @ rev (entries ps))) k =
                 map_of (rev ?es @ rev (entries ps)) k"
      by (rule map_of_append_absent)
    also have "\<dots> = Some (origin_healthy (?ogs ! j))"
      using pool by (rule map_of_append_present)
    finally show ?thesis
      by (simp add: diff_entries)
  qed
  have "map (\<lambda>m. transition firstLoad (map_get prevMap (origin_key p (?ogs ! m) m))
                     (origin_healthy (?ogs ! m))) [0..<length ?ogs] =
        map (\<lambda>m. transition firstLoad
                     (map_get prevMap (if m = i \<or> m = j then k else origin_key p (?ogs ! m) m))
                     (origin_healthy (?ogs ! m))) [0..<length ?ogs]"
    using assms(3,4) by (intro map_cong) auto
  then have events: "fst (origins_forEach prevMap firstLoad p ?ogs 0 (changes, nextMap)) =
        changes @ concat (map (\<lambda>m. transition firstLoad
                                     (map_get prevMap (if m = i \<or> m = j then k
                                                       else origin_key p (?ogs ! m) m))
                                     (origin_healthy (?ogs ! m)))
                            [0..<length ?ogs])"
    by (simp only: origins_forEach_events)
  have "?es ! j \<in> set ?es"
    using assms(2) by simp
  then have "k \<in> fst ` set (entries (ps @ p # qs))"
    using assms(2,4) by (force simp: entries_from_nth)
  from last_occurrence [OF this] obtain n where n: "n < length (entries (ps @ p # qs))"
    "fst (entries (ps @ p # qs) ! n) = k"
    "\<forall>m. n < m \<and> m < length (entries (ps @ p # qs)) \<longrightarrow> fst (entries (ps @ p # qs) ! m) \<noteq> k"
    by blast
  then have "map_of (rev (entries (ps @ p # qs))) (fst (entries (ps @ p # qs) ! n)) =
               Some (snd (entries (ps @ p # qs) ! n))"
    by (intro map_of_rev_last) simp_all
  then have "snd (diff prevMap firstLoad (ps @ p # qs)) k = Some (snd (entries (ps @ p # qs) ! n))"
    using n(2) by (simp add: diff_entries)
  with n have whole: "\<exists>n<length (entries (ps @ p # qs)).
          fst (entries (ps @ p # qs) ! n) = k
        \<and> (\<forall>m. n < m \<and> m < length (entries (ps @ p # qs)) \<longrightarrow>
               fst (entries (ps @ p # qs) ! m) \<noteq> k)
        \<and> snd (diff prevMap firstLoad (ps @ p # qs)) k = Some (snd (entries (ps @ p # qs) ! n))"
    by blast
  from first second whole final events show ?thesis
    by blast
qed

theorem duplicate_key_later_origin_wins_witness:
  "origin_key ex_flapping (origins_of ex_flapping ! 0) 0 = ''p1/a''
   \<and> origin_key ex_flapping (origins_of ex_flapping ! 1) 1 = ''p1/a''
   \<and> snd (origins_forEach [''p1/a'' \<mapsto> Some True] False ex_flapping
             (take 1 (origins_of ex_flapping)) 0 ([], Map.empty)) ''p1/a'' = Some (Some False)
   \<and> snd (origins_forEach [''p1/a'' \<mapsto> Some True] False ex_flapping
             (take 2 (origins_of ex_flapping)) 0 ([], Map.empty)) ''p1/a'' = Some (Some True)
   \<and> snd (diff [''p1/a'' \<mapsto> Some True] False [ex_flapping]) ''p1/a'' = Some (Some True)
   \<and> fst (origins_forEach [''p1/a'' \<mapsto> Some True] False ex_flapping
             (origins_of ex_flapping) 0 ([], Map.empty)) = [Offline]"
  using duplicate_key_later_origin_wins [of 0 1 ex_flapping "''p1/a''"
      "[''p1/a'' \<mapsto> Some True]" False "([], Map.empty)" "[]" "[]" "[]" Map.empty]
  by (auto simp add: ex_flapping_def diff_entries entries_def transition_def map_get_def)

text \<open>
  C10 as stated fails for the first two of three origins that share a key: the
  origin at position 1 is healthy, and the next snapshot holds \<open>false\<close>, the health
  of the origin at position 2, under the key.
\<close>

theorem duplicate_key_third_origin_wins:
  "origin_key ex_triplets (origins_of ex_triplets ! 0) 0 = ''p1/a''
   \<and> origin_key ex_triplets (origins_of ex_triplets ! 1) 1 = ''p1/a''
   \<and> origin_healthy (origins_of ex_triplets ! 1) = Some True
   \<and> snd (diff Map.empty False [ex_triplets]) ''p1/a'' = Some (Some False)"
  by (simp add: ex_triplets_def diff_entries entries_def)

end
